theory Spec2Isabelle
  imports Complex_Main "HOL-Library.Sublist"
begin

section \<open>The window manager of SentryOS: data model\<close>

text \<open>
  The provider \<^verbatim>\<open>WindowManagerProvider\<close> keeps two pieces of React state,
  \<^verbatim>\<open>windows\<close> (initially the empty array) and \<^verbatim>\<open>topZIndex\<close> (initially 100), and
  offers eight callbacks that update them. Each callback is embedded as a function from
  the state before the call to the state after it: the updater passed to
  \<^verbatim>\<open>setTopZIndex\<close> is applied to the current counter, the updater passed to
  \<^verbatim>\<open>setWindows\<close> to the current array, and one call is one transition.

  The calls to \<^verbatim>\<open>Sentry.logger\<close> and \<^verbatim>\<open>Sentry.metrics\<close> return nothing that the
  updaters read, so they have no counterpart here.

  JavaScript numbers are doubles. The counter starts at 100 and only ever grows by one,
  and doubles are exact on integers below \<open>2 ^ 53\<close>, so the counter and the z-indices are
  integers; positions and sizes are only stored and copied, never computed with.
\<close>

text \<open>
  Modelled from the spec: the interface \<^verbatim>\<open>WindowState\<close> is imported from \<^verbatim>\<open>./types\<close>,
  which is not among the sources. Its fields are those of the data model of the
  specification. \<open>WindowSpec\<close> is the argument type of \<^verbatim>\<open>openWindow\<close>,
  \<^verbatim>\<open>Omit<WindowState, 'zIndex' | 'isFocused'>\<close>, and \<open>WindowState\<close> adds the two
  omitted fields to it. The field \<^verbatim>\<open>id\<close> is called \<open>id_w\<close>.
\<close>

record WindowSpec =
  id_w :: string
  title :: string
  icon :: string
  x :: real
  y :: real
  width :: real
  height :: real
  isMinimized :: bool
  isMaximized :: bool

record WindowState = WindowSpec +
  zIndex :: int
  isFocused :: bool

record WindowManager =
  windows :: "WindowState list"
  topZIndex :: int

definition initial :: WindowManager where
  "initial = \<lparr>windows = [], topZIndex = 100\<rparr>"

section \<open>The operations\<close>

text \<open>\<^verbatim>\<open>{ ...window, zIndex: newZ, isFocused: true }\<close> for an argument of \<^verbatim>\<open>openWindow\<close>.\<close>

definition newWindow :: "WindowSpec \<Rightarrow> int \<Rightarrow> WindowState" where
  "newWindow window newZ =
     \<lparr>id_w = id_w window, title = title window, icon = icon window,
      x = x window, y = y window, width = width window, height = height window,
      isMinimized = isMinimized window, isMaximized = isMaximized window,
      zIndex = newZ, isFocused = True\<rparr>"

definition openWindow :: "WindowSpec \<Rightarrow> WindowManager \<Rightarrow> WindowManager" where
  "openWindow window s =
     (let newZ = topZIndex s + 1;
          prev = windows s
      in \<lparr>windows =
            (case find (\<lambda>w. id_w w = id_w window) prev of
               Some existing \<Rightarrow>
                 if isMinimized existing
                 then map (\<lambda>w. if id_w w = id_w window
                                then w\<lparr>isMinimized := False, isFocused := True, zIndex := newZ\<rparr>
                                else w\<lparr>isFocused := False\<rparr>) prev
                 else map (\<lambda>w. if id_w w = id_w window
                                then w\<lparr>isFocused := True, zIndex := newZ\<rparr>
                                else w\<lparr>isFocused := False\<rparr>) prev
             | None \<Rightarrow>
                 map (\<lambda>w. w\<lparr>isFocused := False\<rparr>) prev @ [newWindow window newZ]),
          topZIndex = newZ\<rparr>)"

definition closeWindow :: "string \<Rightarrow> WindowManager \<Rightarrow> WindowManager" where
  "closeWindow i s = s\<lparr>windows := filter (\<lambda>w. id_w w \<noteq> i) (windows s)\<rparr>"

definition minimizeWindow :: "string \<Rightarrow> WindowManager \<Rightarrow> WindowManager" where
  "minimizeWindow i s =
     s\<lparr>windows := map (\<lambda>w. if id_w w = i then w\<lparr>isMinimized := True, isFocused := False\<rparr> else w)
                       (windows s)\<rparr>"

definition maximizeWindow :: "string \<Rightarrow> WindowManager \<Rightarrow> WindowManager" where
  "maximizeWindow i s =
     s\<lparr>windows := map (\<lambda>w. if id_w w = i then w\<lparr>isMaximized := \<not> isMaximized w\<rparr> else w)
                       (windows s)\<rparr>"

definition restoreWindow :: "string \<Rightarrow> WindowManager \<Rightarrow> WindowManager" where
  "restoreWindow i s =
     (let newZ = topZIndex s + 1
      in \<lparr>windows = map (\<lambda>w. if id_w w = i
                             then w\<lparr>isMinimized := False, isFocused := True, zIndex := newZ\<rparr>
                             else w\<lparr>isFocused := False\<rparr>) (windows s),
          topZIndex = newZ\<rparr>)"

definition focusWindow :: "string \<Rightarrow> WindowManager \<Rightarrow> WindowManager" where
  "focusWindow i s =
     (let newZ = topZIndex s + 1
      in \<lparr>windows = map (\<lambda>w. if id_w w = i
                             then w\<lparr>isFocused := True, zIndex := newZ\<rparr>
                             else w\<lparr>isFocused := False\<rparr>) (windows s),
          topZIndex = newZ\<rparr>)"

definition updateWindowPosition :: "string \<Rightarrow> real \<Rightarrow> real \<Rightarrow> WindowManager \<Rightarrow> WindowManager" where
  "updateWindowPosition i nx ny s =
     s\<lparr>windows := map (\<lambda>w. if id_w w = i then w\<lparr>x := nx, y := ny\<rparr> else w) (windows s)\<rparr>"

definition updateWindowSize :: "string \<Rightarrow> real \<Rightarrow> real \<Rightarrow> WindowManager \<Rightarrow> WindowManager" where
  "updateWindowSize i nwidth nheight s =
     s\<lparr>windows := map (\<lambda>w. if id_w w = i then w\<lparr>width := nwidth, height := nheight\<rparr> else w)
                       (windows s)\<rparr>"

section \<open>Sequences of calls\<close>

datatype operation =
    OpenWindow WindowSpec
  | CloseWindow string
  | MinimizeWindow string
  | MaximizeWindow string
  | RestoreWindow string
  | FocusWindow string
  | UpdateWindowPosition string real real
  | UpdateWindowSize string real real

fun step :: "WindowManager \<Rightarrow> operation \<Rightarrow> WindowManager" where
  "step s (OpenWindow window) = openWindow window s"
| "step s (CloseWindow i) = closeWindow i s"
| "step s (MinimizeWindow i) = minimizeWindow i s"
| "step s (MaximizeWindow i) = maximizeWindow i s"
| "step s (RestoreWindow i) = restoreWindow i s"
| "step s (FocusWindow i) = focusWindow i s"
| "step s (UpdateWindowPosition i nx ny) = updateWindowPosition i nx ny s"
| "step s (UpdateWindowSize i nwidth nheight) = updateWindowSize i nwidth nheight s"

text \<open>The state after a sequence of calls, the first call first.\<close>

definition run :: "operation list \<Rightarrow> WindowManager" where
  "run ops = foldl step initial ops"

text \<open>At most one window of the list is focused.\<close>

definition atMostOneFocused :: "WindowState list \<Rightarrow> bool" where
  "atMostOneFocused ws \<longleftrightarrow> length (filter isFocused ws) \<le> 1"

text \<open>The ids of the windows of the list are pairwise different.\<close>

definition uniqueIds :: "WindowState list \<Rightarrow> bool" where
  "uniqueIds ws \<longleftrightarrow> distinct (map id_w ws)"

text \<open>No window lies above the counter.\<close>

definition zBounded :: "WindowManager \<Rightarrow> bool" where
  "zBounded s \<longleftrightarrow> list_all (\<lambda>w. zIndex w \<le> topZIndex s) (windows s)"

text \<open>
  The call that leads from \<open>s\<close> to \<open>s'\<close> gave the next z-index to the window \<open>i\<close>:
  the counter went up by one, every window with this id holds the new value, and a window
  with this id that was there is still there.
\<close>

definition assignsNext :: "string \<Rightarrow> WindowManager \<Rightarrow> WindowManager \<Rightarrow> bool" where
  "assignsNext i s s' \<longleftrightarrow>
     topZIndex s' = topZIndex s + 1 \<and>
     list_all (\<lambda>w. id_w w = i \<longrightarrow> zIndex w = topZIndex s + 1) (windows s') \<and>
     (i \<in> set (map id_w (windows s)) \<longrightarrow> i \<in> set (map id_w (windows s')))"

section \<open>Example windows\<close>

definition specA :: WindowSpec where
  "specA = \<lparr>id_w = ''a'', title = ''Notes'', icon = ''notes.png'',
            x = 40, y = 60, width = 640, height = 480,
            isMinimized = False, isMaximized = False\<rparr>"

definition specB :: WindowSpec where
  "specB = \<lparr>id_w = ''b'', title = ''Chat'', icon = ''chat.png'',
            x = 120, y = 90, width = 400, height = 300,
            isMinimized = False, isMaximized = True\<rparr>"

text \<open>An argument for \<^verbatim>\<open>openWindow\<close> with the id of \<open>specA\<close> and other values.\<close>

definition specA2 :: WindowSpec where
  "specA2 = \<lparr>id_w = ''a'', title = ''Other'', icon = ''other.png'',
             x = 1, y = 2, width = 3, height = 4,
             isMinimized = True, isMaximized = True\<rparr>"

section \<open>Invariants of the reachable states\<close>

subsection \<open>Unique ids and the single focus\<close>

lemma filter_key_le1:
  "distinct (map g ws) \<Longrightarrow> length (filter (\<lambda>w. g w = i) ws) \<le> Suc 0"
proof (induction ws)
  case Nil
  then show ?case by simp
next
  case (Cons a ws)
  show ?case
  proof (cases "g a = i")
    case True
    with Cons.prems have "\<forall>w\<in>set ws. g w \<noteq> i" by (auto simp: image_iff)
    then have "filter (\<lambda>w. g w = i) ws = []" by (simp add: filter_empty_conv)
    with True show ?thesis by simp
  next
    case False
    with Cons show ?thesis by simp
  qed
qed

lemma focused_front:
  assumes "distinct (map id_w ws)"
    and "\<And>w. isFocused (f w) \<longleftrightarrow> id_w w = i"
  shows "atMostOneFocused (map f ws)"
proof -
  have "filter isFocused (map f ws) = map f (filter (\<lambda>w. id_w w = i) ws)"
    using assms(2) by (simp add: filter_map comp_def)
  then show ?thesis
    using filter_key_le1 [OF assms(1), of i] by (simp add: atMostOneFocused_def)
qed

lemma filter_length_mono:
  "(\<And>w. Q w \<Longrightarrow> P w) \<Longrightarrow> length (filter Q ws) \<le> length (filter P ws)"
  by (induction ws) auto

lemma focused_shrink:
  assumes "atMostOneFocused ws" and "\<And>w. isFocused (f w) \<Longrightarrow> isFocused w"
  shows "atMostOneFocused (map f ws)"
proof -
  have "length (filter (isFocused \<circ> f) ws) \<le> length (filter isFocused ws)"
    by (rule filter_length_mono) (simp add: assms(2))
  with assms(1) show ?thesis
    by (simp add: atMostOneFocused_def filter_map)
qed

lemma ids_map: "(\<And>w. id_w (f w) = id_w w) \<Longrightarrow> map id_w (map f ws) = map id_w ws"
  by (induction ws) simp_all

lemma find_None_ids: "find (\<lambda>w. id_w w = i) ws = None \<longleftrightarrow> i \<notin> set (map id_w ws)"
  by (auto simp: find_None_iff)

lemma step_uniqueIds: "uniqueIds (windows s) \<Longrightarrow> uniqueIds (windows (step s opn))"
proof (cases opn)
  case (OpenWindow window)
  assume u: "uniqueIds (windows s)"
  show ?thesis
  proof (cases "find (\<lambda>w. id_w w = id_w window) (windows s)")
    case None
    then have "id_w window \<notin> set (map id_w (windows s))" by (simp add: find_None_ids)
    with u OpenWindow None show ?thesis
      by (simp add: uniqueIds_def openWindow_def Let_def ids_map newWindow_def comp_def)
  next
    case (Some e)
    with u OpenWindow show ?thesis
      by (simp add: uniqueIds_def openWindow_def Let_def comp_def if_distrib [of id_w]
            cong: if_cong)
  qed
next
  case (CloseWindow i)
  assume "uniqueIds (windows s)"
  with CloseWindow show ?thesis
    by (simp add: uniqueIds_def closeWindow_def distinct_map_filter)
qed (simp_all add: uniqueIds_def minimizeWindow_def maximizeWindow_def restoreWindow_def
      focusWindow_def updateWindowPosition_def updateWindowSize_def Let_def comp_def
      if_distrib [of id_w] cong: if_cong)

lemma filter_filter_le: "length (filter P (filter Q ws)) \<le> length (filter P ws)"
  by (induction ws) auto

lemma step_atMostOneFocused:
  assumes u: "uniqueIds (windows s)" and f: "atMostOneFocused (windows s)"
  shows "atMostOneFocused (windows (step s opn))"
proof (cases opn)
  case (OpenWindow window)
  from u have d: "distinct (map id_w (windows s))" by (simp add: uniqueIds_def)
  show ?thesis
  proof (cases "find (\<lambda>w. id_w w = id_w window) (windows s)")
    case None
    have "filter isFocused (map (\<lambda>w. w\<lparr>isFocused := False\<rparr>) (windows s)) = []"
      by (simp add: filter_empty_conv)
    with OpenWindow None show ?thesis
      by (simp add: openWindow_def Let_def atMostOneFocused_def newWindow_def)
  next
    case (Some e)
    with OpenWindow show ?thesis
      by (simp add: openWindow_def Let_def focused_front [OF d, of _ "id_w window"])
  qed
next
  case (CloseWindow i)
  with f filter_filter_le [of isFocused "\<lambda>w. id_w w \<noteq> i" "windows s"] show ?thesis
    by (simp add: closeWindow_def atMostOneFocused_def)
next
  case (MinimizeWindow i)
  then show ?thesis
    by (auto simp: minimizeWindow_def split: if_splits intro!: focused_shrink [OF f])
next
  case (MaximizeWindow i)
  then show ?thesis
    by (auto simp: maximizeWindow_def split: if_splits intro!: focused_shrink [OF f])
next
  case (RestoreWindow i)
  from u have d: "distinct (map id_w (windows s))" by (simp add: uniqueIds_def)
  from RestoreWindow show ?thesis
    by (simp add: restoreWindow_def Let_def focused_front [OF d, of _ i])
next
  case (FocusWindow i)
  from u have d: "distinct (map id_w (windows s))" by (simp add: uniqueIds_def)
  from FocusWindow show ?thesis
    by (simp add: focusWindow_def Let_def focused_front [OF d, of _ i])
next
  case (UpdateWindowPosition i nx ny)
  then show ?thesis
    by (auto simp: updateWindowPosition_def split: if_splits intro!: focused_shrink [OF f])
next
  case (UpdateWindowSize i nwidth nheight)
  then show ?thesis
    by (auto simp: updateWindowSize_def split: if_splits intro!: focused_shrink [OF f])
qed

lemma foldl_step_focus:
  "uniqueIds (windows s) \<Longrightarrow> atMostOneFocused (windows s) \<Longrightarrow>
   uniqueIds (windows (foldl step s ops)) \<and> atMostOneFocused (windows (foldl step s ops))"
proof (induction ops arbitrary: s)
  case Nil
  then show ?case by simp
next
  case (Cons opn ops)
  from Cons.prems have "uniqueIds (windows (step s opn))"
    and "atMostOneFocused (windows (step s opn))"
    by (simp_all add: step_uniqueIds step_atMostOneFocused)
  then show ?case using Cons.IH by simp
qed

lemma initial_focus: "uniqueIds (windows initial) \<and> atMostOneFocused (windows initial)"
  by (simp add: initial_def uniqueIds_def atMostOneFocused_def)

lemma run_uniqueIds: "uniqueIds (windows (run ops))"
  using foldl_step_focus initial_focus by (simp add: run_def)

text \<open>
  C1. After every sequence of calls of \<^verbatim>\<open>openWindow\<close>, \<^verbatim>\<open>closeWindow\<close>,
  \<^verbatim>\<open>minimizeWindow\<close>, \<^verbatim>\<open>maximizeWindow\<close>, \<^verbatim>\<open>restoreWindow\<close>, \<^verbatim>\<open>focusWindow\<close>,
  \<^verbatim>\<open>updateWindowPosition\<close> and \<^verbatim>\<open>updateWindowSize\<close> that starts from the initial state
  (no windows, \<open>topZIndex = 100\<close>), at most one window has \<open>isFocused\<close> true.
\<close>

theorem at_most_one_focused: "atMostOneFocused (windows (run ops))"
  using foldl_step_focus initial_focus by (simp add: run_def)

subsection \<open>The counter and the z-indices\<close>

lemma step_topZIndex_mono: "topZIndex s \<le> topZIndex (step s opn)"
  by (cases opn)
    (simp_all add: openWindow_def closeWindow_def minimizeWindow_def maximizeWindow_def
      restoreWindow_def focusWindow_def updateWindowPosition_def updateWindowSize_def Let_def)

lemma foldl_topZIndex_mono: "topZIndex s \<le> topZIndex (foldl step s ops)"
proof (induction ops arbitrary: s)
  case Nil
  show ?case by simp
next
  case (Cons opn ops)
  have "topZIndex s \<le> topZIndex (step s opn)" by (rule step_topZIndex_mono)
  also have "\<dots> \<le> topZIndex (foldl step (step s opn) ops)" by (rule Cons.IH)
  finally show ?case by simp
qed

lemma zBounded_map:
  assumes "zBounded s" and "topZIndex s \<le> z"
    and "\<And>w. zIndex w \<le> z \<Longrightarrow> zIndex (f w) \<le> z"
  shows "list_all (\<lambda>w. zIndex w \<le> z) (map f (windows s))"
  using assms by (fastforce simp: zBounded_def list_all_iff)

lemma openWindow_zBounded: "zBounded s \<Longrightarrow> zBounded (openWindow window s)"
proof -
  assume b: "zBounded s"
  have le: "topZIndex s \<le> topZIndex s + 1" by simp
  show ?thesis
  proof (cases "find (\<lambda>w. id_w w = id_w window) (windows s)")
    case None
    then show ?thesis
      using zBounded_map [OF b le, of "\<lambda>w. w\<lparr>isFocused := False\<rparr>"]
      by (simp add: zBounded_def openWindow_def Let_def newWindow_def)
  next
    case (Some e)
    show ?thesis
    proof (cases "isMinimized e")
      case True
      with Some show ?thesis
        using zBounded_map [OF b le, of "\<lambda>w. if id_w w = id_w window
            then w\<lparr>isMinimized := False, isFocused := True, zIndex := topZIndex s + 1\<rparr>
            else w\<lparr>isFocused := False\<rparr>"]
        by (simp add: zBounded_def openWindow_def Let_def)
    next
      case False
      with Some show ?thesis
        using zBounded_map [OF b le, of "\<lambda>w. if id_w w = id_w window
            then w\<lparr>isFocused := True, zIndex := topZIndex s + 1\<rparr>
            else w\<lparr>isFocused := False\<rparr>"]
        by (simp add: zBounded_def openWindow_def Let_def)
    qed
  qed
qed

lemma closeWindow_zBounded: "zBounded s \<Longrightarrow> zBounded (closeWindow i s)"
  by (simp add: zBounded_def closeWindow_def list_all_iff)

lemma minimizeWindow_zBounded: "zBounded s \<Longrightarrow> zBounded (minimizeWindow i s)"
  by (auto simp: zBounded_def minimizeWindow_def list_all_iff)

lemma maximizeWindow_zBounded: "zBounded s \<Longrightarrow> zBounded (maximizeWindow i s)"
  by (auto simp: zBounded_def maximizeWindow_def list_all_iff)

lemma restoreWindow_zBounded: "zBounded s \<Longrightarrow> zBounded (restoreWindow i s)"
proof -
  assume b: "zBounded s"
  have le: "topZIndex s \<le> topZIndex s + 1" by simp
  show ?thesis
    using zBounded_map [OF b le, of "\<lambda>w. if id_w w = i
        then w\<lparr>isMinimized := False, isFocused := True, zIndex := topZIndex s + 1\<rparr>
        else w\<lparr>isFocused := False\<rparr>"]
    by (simp add: zBounded_def restoreWindow_def Let_def)
qed

lemma focusWindow_zBounded: "zBounded s \<Longrightarrow> zBounded (focusWindow i s)"
proof -
  assume b: "zBounded s"
  have le: "topZIndex s \<le> topZIndex s + 1" by simp
  show ?thesis
    using zBounded_map [OF b le, of "\<lambda>w. if id_w w = i
        then w\<lparr>isFocused := True, zIndex := topZIndex s + 1\<rparr>
        else w\<lparr>isFocused := False\<rparr>"]
    by (simp add: zBounded_def focusWindow_def Let_def)
qed

lemma updateWindowPosition_zBounded: "zBounded s \<Longrightarrow> zBounded (updateWindowPosition i nx ny s)"
  by (auto simp: zBounded_def updateWindowPosition_def list_all_iff)

lemma updateWindowSize_zBounded: "zBounded s \<Longrightarrow> zBounded (updateWindowSize i nw nh s)"
  by (auto simp: zBounded_def updateWindowSize_def list_all_iff)

lemma step_zBounded: "zBounded s \<Longrightarrow> zBounded (step s opn)"
  by (cases opn)
    (simp_all add: openWindow_zBounded closeWindow_zBounded minimizeWindow_zBounded
      maximizeWindow_zBounded restoreWindow_zBounded focusWindow_zBounded
      updateWindowPosition_zBounded updateWindowSize_zBounded)

lemma foldl_zBounded: "zBounded s \<Longrightarrow> zBounded (foldl step s ops)"
  by (induction ops arbitrary: s) (simp_all add: step_zBounded)

lemma run_zBounded: "zBounded (run ops)"
  unfolding run_def by (rule foldl_zBounded) (simp add: zBounded_def initial_def)

lemma run_take_drop: "run ops = foldl step (run (take k ops)) (drop k ops)"
proof -
  have "foldl step initial (take k ops @ drop k ops) =
        foldl step (foldl step initial (take k ops)) (drop k ops)"
    by (simp only: foldl_append)
  then show ?thesis by (simp add: run_def)
qed

lemma run_prefix_zIndex:
  assumes "w \<in> set (windows (run (take k ops)))"
  shows "zIndex w \<le> topZIndex (run ops)"
proof -
  from run_zBounded [of "take k ops"] assms
  have "zIndex w \<le> topZIndex (run (take k ops))"
    by (simp add: zBounded_def list_all_iff)
  also have "\<dots> \<le> topZIndex (foldl step (run (take k ops)) (drop k ops))"
    by (rule foldl_topZIndex_mono)
  also have "\<dots> = topZIndex (run ops)"
    by (simp only: run_take_drop [of ops k, symmetric])
  finally show ?thesis .
qed

lemma openWindow_ids:
  "map id_w (windows (openWindow window s)) =
     (if id_w window \<in> set (map id_w (windows s)) then map id_w (windows s)
      else map id_w (windows s) @ [id_w window])"
proof (cases "find (\<lambda>w. id_w w = id_w window) (windows s)")
  case None
  then have "id_w window \<notin> set (map id_w (windows s))" by (simp add: find_None_ids)
  with None show ?thesis
    by (simp add: openWindow_def Let_def newWindow_def comp_def)
next
  case (Some e)
  then have "id_w window \<in> set (map id_w (windows s))"
    using find_None_ids [of "id_w window" "windows s"] by simp
  with Some show ?thesis
    by (simp add: openWindow_def Let_def comp_def if_distrib [of id_w] cong: if_cong)
qed

lemma restoreWindow_ids: "map id_w (windows (restoreWindow i s)) = map id_w (windows s)"
  by (simp add: restoreWindow_def Let_def comp_def if_distrib [of id_w] cong: if_cong)

lemma focusWindow_ids: "map id_w (windows (focusWindow i s)) = map id_w (windows s)"
  by (simp add: focusWindow_def Let_def comp_def if_distrib [of id_w] cong: if_cong)

lemma list_all_map_if:
  "list_all P (map f ws) = list_all (\<lambda>w. P (f w)) ws"
  by (induction ws) simp_all

lemma openWindow_target_zIndex:
  "list_all (\<lambda>w. id_w w = id_w window \<longrightarrow> zIndex w = topZIndex s + 1)
     (windows (openWindow window s))"
proof (cases "find (\<lambda>w. id_w w = id_w window) (windows s)")
  case None
  then have "\<forall>w\<in>set (windows s). id_w w \<noteq> id_w window" by (simp add: find_None_iff)
  with None show ?thesis
    by (auto simp: openWindow_def Let_def newWindow_def list_all_iff)
next
  case (Some e)
  then show ?thesis
    by (simp add: openWindow_def Let_def list_all_map_if list.pred_True)
qed

lemma openWindow_assignsNext: "assignsNext (id_w window) s (openWindow window s)"
proof -
  have "topZIndex (openWindow window s) = topZIndex s + 1"
    by (simp add: openWindow_def Let_def)
  then show ?thesis
    unfolding assignsNext_def
    by (simp add: openWindow_target_zIndex openWindow_ids)
qed

lemma openWindow_present: "id_w window \<in> set (map id_w (windows (openWindow window s)))"
  by (simp only: openWindow_ids) simp

lemma restoreWindow_assignsNext: "assignsNext i s (restoreWindow i s)"
proof -
  have "topZIndex (restoreWindow i s) = topZIndex s + 1"
    and "list_all (\<lambda>w. id_w w = i \<longrightarrow> zIndex w = topZIndex s + 1) (windows (restoreWindow i s))"
    by (simp_all add: restoreWindow_def Let_def list_all_map_if list.pred_True)
  then show ?thesis
    unfolding assignsNext_def by (simp only: restoreWindow_ids simp_thms)
qed

lemma focusWindow_assignsNext: "assignsNext i s (focusWindow i s)"
proof -
  have "topZIndex (focusWindow i s) = topZIndex s + 1"
    and "list_all (\<lambda>w. id_w w = i \<longrightarrow> zIndex w = topZIndex s + 1) (windows (focusWindow i s))"
    by (simp_all add: focusWindow_def Let_def list_all_map_if list.pred_True)
  then show ?thesis
    unfolding assignsNext_def by (simp only: focusWindow_ids simp_thms)
qed

text \<open>
  C2. In every state reached from the initial one, each of \<^verbatim>\<open>openWindow\<close>,
  \<^verbatim>\<open>restoreWindow\<close> and \<^verbatim>\<open>focusWindow\<close> gives its target window the z-index
  \<open>topZIndex + 1\<close> and stores that value as the new \<open>topZIndex\<close>; the value is strictly
  greater than the z-index of every window of every earlier state of the run (and of the
  current one), and after \<^verbatim>\<open>openWindow\<close> the target is present. No operation, in any
  state, lowers \<open>topZIndex\<close>.
\<close>

theorem fronting_assigns_fresh_zIndex:
  "assignsNext (id_w window) (run ops) (openWindow window (run ops)) \<and>
   id_w window \<in> set (map id_w (windows (openWindow window (run ops)))) \<and>
   assignsNext i (run ops) (restoreWindow i (run ops)) \<and>
   assignsNext i (run ops) (focusWindow i (run ops)) \<and>
   (\<forall>k\<le>length ops. \<forall>w\<in>set (windows (run (take k ops))). zIndex w < topZIndex (run ops) + 1) \<and>
   topZIndex t \<le> topZIndex (step t opn)"
proof -
  have "\<forall>k\<le>length ops. \<forall>w\<in>set (windows (run (take k ops))). zIndex w < topZIndex (run ops) + 1"
    using run_prefix_zIndex [of _ _ ops] by fastforce
  then show ?thesis
    by (simp only: openWindow_assignsNext openWindow_present restoreWindow_assignsNext
        focusWindow_assignsNext step_topZIndex_mono simp_thms)
qed

text \<open>The scenario of the specification: open A, open B, focus A.\<close>

lemma specA_id: "id_w specA = ''a''"
  by (simp add: specA_def)

lemma specB_id: "id_w specB = ''b''"
  by (simp add: specB_def)

lemma run_A: "run [OpenWindow specA] = \<lparr>windows = [newWindow specA 101], topZIndex = 101\<rparr>"
  by (simp add: run_def initial_def openWindow_def Let_def)

lemma run_AB:
  "run [OpenWindow specA, OpenWindow specB] =
     \<lparr>windows = [(newWindow specA 101)\<lparr>isFocused := False\<rparr>, newWindow specB 102], topZIndex = 102\<rparr>"
  by (simp add: run_def initial_def openWindow_def Let_def specA_def specB_def newWindow_def)

theorem fronting_assigns_fresh_zIndex_witness:
  "topZIndex (run [OpenWindow specA, OpenWindow specB]) = 102 \<and>
   map zIndex (windows (run [OpenWindow specA, OpenWindow specB])) = [101, 102] \<and>
   topZIndex (focusWindow ''a'' (run [OpenWindow specA, OpenWindow specB])) = 103 \<and>
   map zIndex (windows (focusWindow ''a'' (run [OpenWindow specA, OpenWindow specB]))) = [103, 102] \<and>
   assignsNext ''a'' (run [OpenWindow specA, OpenWindow specB])
     (focusWindow ''a'' (run [OpenWindow specA, OpenWindow specB])) \<and>
   map zIndex (windows (run (take 1 [OpenWindow specA, OpenWindow specB]))) = [101]"
  using fronting_assigns_fresh_zIndex
    [of specA "[OpenWindow specA, OpenWindow specB]" "''a''" initial "FocusWindow ''a''"]
  by (simp add: run_AB run_A focusWindow_def Let_def specA_id specB_id newWindow_def)

section \<open>Calls with an id that matches no window\<close>

lemma map_no_match:
  "i \<notin> set (map id_w ws) \<Longrightarrow> map (\<lambda>w. if id_w w = i then f w else g w) ws = map g ws"
  by (induction ws) auto

text \<open>
  C3, as stated, fails: \<^verbatim>\<open>focusWindow\<close> computes \<open>newZ = currentZ + 1\<close> and returns it
  from the updater of \<^verbatim>\<open>setTopZIndex\<close> whether or not a window matches. After opening
  the window \<open>a\<close>, focusing the unknown id \<open>b\<close> moves the counter from 101 to 102.
\<close>

theorem focusWindow_absent_counterexample:
  "''b'' \<notin> set (map id_w (windows (run [OpenWindow specA]))) \<and>
   topZIndex (run [OpenWindow specA]) = 101 \<and>
   topZIndex (focusWindow ''b'' (run [OpenWindow specA])) = 102"
  by (simp add: run_A focusWindow_def Let_def newWindow_def specA_id)

text \<open>
  C3, amended. For every state and every id not present in \<open>windows\<close>,
  \<^verbatim>\<open>focusWindow\<close> raises \<open>topZIndex\<close> by one: the next z-index is consumed although no
  window matches. No window is added and none receives the new value; the windows are
  the old ones with \<open>isFocused\<close> set to false.
\<close>

theorem focusWindow_absent_consumes:
  "i \<notin> set (map id_w (windows s)) \<Longrightarrow>
     topZIndex (focusWindow i s) = topZIndex s + 1 \<and>
     windows (focusWindow i s) = map (\<lambda>w. w\<lparr>isFocused := False\<rparr>) (windows s)"
  by (simp add: focusWindow_def Let_def map_no_match)

theorem focusWindow_absent_consumes_witness:
  "''b'' \<notin> set (map id_w (windows (run [OpenWindow specA]))) \<and>
   topZIndex (focusWindow ''b'' (run [OpenWindow specA])) = 102 \<and>
   windows (focusWindow ''b'' (run [OpenWindow specA])) = [(newWindow specA 101)\<lparr>isFocused := False\<rparr>]"
  using focusWindow_absent_consumes [of "''b''" "run [OpenWindow specA]"]
  by (simp add: run_A newWindow_def specA_id)

text \<open>
  C10. For every state and every id not present in \<open>windows\<close>, \<^verbatim>\<open>restoreWindow\<close>
  still raises \<open>topZIndex\<close> by one and sets \<open>isFocused\<close> to false on every window: the
  call is not a no-op, it consumes a z-index and leaves no window focused.
\<close>

theorem restoreWindow_absent_consumes:
  "i \<notin> set (map id_w (windows s)) \<Longrightarrow>
     topZIndex (restoreWindow i s) = topZIndex s + 1 \<and>
     windows (restoreWindow i s) = map (\<lambda>w. w\<lparr>isFocused := False\<rparr>) (windows s) \<and>
     list_all (\<lambda>w. \<not> isFocused w) (windows (restoreWindow i s)) \<and>
     restoreWindow i s \<noteq> s"
proof -
  assume a: "i \<notin> set (map id_w (windows s))"
  have t: "topZIndex (restoreWindow i s) = topZIndex s + 1"
    by (simp add: restoreWindow_def Let_def)
  from a have w: "windows (restoreWindow i s) = map (\<lambda>w. w\<lparr>isFocused := False\<rparr>) (windows s)"
    by (simp add: restoreWindow_def Let_def map_no_match)
  have f: "list_all (\<lambda>w. \<not> isFocused w) (windows (restoreWindow i s))"
    by (simp add: w list_all_map_if list.pred_True)
  from t have "topZIndex (restoreWindow i s) \<noteq> topZIndex s" by simp
  then have "restoreWindow i s \<noteq> s" by auto
  with t w f show ?thesis by simp
qed

theorem restoreWindow_absent_consumes_witness:
  "''b'' \<notin> set (map id_w (windows (run [OpenWindow specA]))) \<and>
   map isFocused (windows (run [OpenWindow specA])) = [True] \<and>
   topZIndex (run [OpenWindow specA]) = 101 \<and>
   topZIndex (restoreWindow ''b'' (run [OpenWindow specA])) = 102 \<and>
   map isFocused (windows (restoreWindow ''b'' (run [OpenWindow specA]))) = [False]"
  using restoreWindow_absent_consumes [of "''b''" "run [OpenWindow specA]"]
  by (simp add: run_A newWindow_def specA_id)

section \<open>Frame properties\<close>

lemma map_no_match_id:
  "i \<notin> set (map id_w ws) \<Longrightarrow> map (\<lambda>w. if id_w w = i then f w else w) ws = ws"
  using map_no_match [of i ws f "\<lambda>w. w"] by simp

text \<open>
  C4. In every state, \<^verbatim>\<open>closeWindow\<close> removes the windows whose id is the given one and
  nothing else: no window with this id is left, the windows left are exactly the old
  windows with another id, unchanged in every field and in their order, and the counter is
  unchanged. If no window has the id the state is unchanged. The focused windows after the
  call are the focused windows before it without the closed one, so closing a window
  focuses no other.
\<close>

theorem closeWindow_removes_only:
  "topZIndex (closeWindow i s) = topZIndex s \<and>
   i \<notin> set (map id_w (windows (closeWindow i s))) \<and>
   set (windows (closeWindow i s)) = {w \<in> set (windows s). id_w w \<noteq> i} \<and>
   subseq (windows (closeWindow i s)) (windows s) \<and>
   length (windows (closeWindow i s)) + length (filter (\<lambda>w. id_w w = i) (windows s)) =
     length (windows s) \<and>
   filter isFocused (windows (closeWindow i s)) =
     filter (\<lambda>w. id_w w \<noteq> i) (filter isFocused (windows s)) \<and>
   (i \<notin> set (map id_w (windows s)) \<longrightarrow> closeWindow i s = s)"
proof -
  have len: "length (filter (\<lambda>w. id_w w \<noteq> i) (windows s)) +
      length (filter (\<lambda>w. id_w w = i) (windows s)) = length (windows s)"
    using sum_length_filter_compl [of "\<lambda>w. id_w w = i" "windows s"] by simp
  have foc: "filter isFocused (filter (\<lambda>w. id_w w \<noteq> i) (windows s)) =
      filter (\<lambda>w. id_w w \<noteq> i) (filter isFocused (windows s))"
    by (simp add: conj_commute)
  have absent: "i \<notin> set (map id_w (windows s)) \<longrightarrow> closeWindow i s = s"
  proof
    assume "i \<notin> set (map id_w (windows s))"
    then have "filter (\<lambda>w. id_w w \<noteq> i) (windows s) = windows s"
      by (auto simp: filter_id_conv)
    then show "closeWindow i s = s" by (simp add: closeWindow_def)
  qed
  have gone: "i \<notin> set (map id_w (windows (closeWindow i s)))"
    by (auto simp: closeWindow_def)
  have same: "set (windows (closeWindow i s)) = {w \<in> set (windows s). id_w w \<noteq> i}"
    by (auto simp: closeWindow_def)
  from len foc absent gone same show ?thesis
    by (simp add: closeWindow_def)
qed

theorem closeWindow_removes_only_witness:
  "''c'' \<notin> set (map id_w (windows (run [OpenWindow specA, OpenWindow specB]))) \<and>
   closeWindow ''c'' (run [OpenWindow specA, OpenWindow specB]) =
     run [OpenWindow specA, OpenWindow specB] \<and>
   windows (closeWindow ''b'' (run [OpenWindow specA, OpenWindow specB])) =
     [(newWindow specA 101)\<lparr>isFocused := False\<rparr>] \<and>
   map isFocused (windows (closeWindow ''b'' (run [OpenWindow specA, OpenWindow specB]))) = [False]"
  using closeWindow_removes_only [of "''c''" "run [OpenWindow specA, OpenWindow specB]"]
  by (simp add: run_AB closeWindow_def newWindow_def specA_id specB_id)

text \<open>
  C8. In every state, \<^verbatim>\<open>maximizeWindow\<close> negates \<open>isMaximized\<close> on the window with the
  given id and changes no other field of it (\<open>zIndex\<close> and \<open>isFocused\<close> in particular),
  no other window and not the counter; if no window has the id the whole state is
  unchanged.
\<close>

theorem maximizeWindow_toggles_only:
  "topZIndex (maximizeWindow i s) = topZIndex s \<and>
   length (windows (maximizeWindow i s)) = length (windows s) \<and>
   (\<forall>k<length (windows s).
      windows (maximizeWindow i s) ! k =
        (if id_w (windows s ! k) = i
         then (windows s ! k)\<lparr>isMaximized := \<not> isMaximized (windows s ! k)\<rparr>
         else windows s ! k)) \<and>
   map zIndex (windows (maximizeWindow i s)) = map zIndex (windows s) \<and>
   map isFocused (windows (maximizeWindow i s)) = map isFocused (windows s) \<and>
   (i \<notin> set (map id_w (windows s)) \<longrightarrow> maximizeWindow i s = s)"
  by (simp add: maximizeWindow_def map_no_match_id comp_def if_distrib [of zIndex]
      if_distrib [of isFocused] cong: if_cong)

lemma specB_isMaximized: "isMaximized specB"
  by (simp add: specB_def)

theorem maximizeWindow_toggles_only_witness:
  "maximizeWindow ''a'' initial = initial \<and>
   windows initial = [] \<and>
   ''c'' \<notin> set (map id_w (windows (run [OpenWindow specA, OpenWindow specB]))) \<and>
   maximizeWindow ''c'' (run [OpenWindow specA, OpenWindow specB]) =
     run [OpenWindow specA, OpenWindow specB] \<and>
   windows (maximizeWindow ''b'' (run [OpenWindow specA, OpenWindow specB])) =
     [(newWindow specA 101)\<lparr>isFocused := False\<rparr>, (newWindow specB 102)\<lparr>isMaximized := False\<rparr>] \<and>
   isMaximized specB"
  using maximizeWindow_toggles_only [of "''a''" initial]
    maximizeWindow_toggles_only [of "''c''" "run [OpenWindow specA, OpenWindow specB]"]
  by (simp add: run_AB maximizeWindow_def newWindow_def specA_id specB_id initial_def
      specB_isMaximized)

text \<open>
  C9. In every state, \<^verbatim>\<open>updateWindowPosition\<close> overwrites only \<open>x\<close> and \<open>y\<close> of the window
  with the given id, and \<^verbatim>\<open>updateWindowSize\<close> only its \<open>width\<close> and \<open>height\<close>. Neither
  changes \<open>zIndex\<close>, \<open>isFocused\<close> or another field of the target, another window, or
  \<open>topZIndex\<close>; with an id that no window has, both leave the state unchanged.
\<close>

theorem update_geometry_only:
  "topZIndex (updateWindowPosition i nx ny s) = topZIndex s \<and>
   length (windows (updateWindowPosition i nx ny s)) = length (windows s) \<and>
   (\<forall>k<length (windows s).
      windows (updateWindowPosition i nx ny s) ! k =
        (if id_w (windows s ! k) = i then (windows s ! k)\<lparr>x := nx, y := ny\<rparr>
         else windows s ! k)) \<and>
   map zIndex (windows (updateWindowPosition i nx ny s)) = map zIndex (windows s) \<and>
   map isFocused (windows (updateWindowPosition i nx ny s)) = map isFocused (windows s) \<and>
   (i \<notin> set (map id_w (windows s)) \<longrightarrow> updateWindowPosition i nx ny s = s) \<and>
   topZIndex (updateWindowSize i nwidth nheight s) = topZIndex s \<and>
   length (windows (updateWindowSize i nwidth nheight s)) = length (windows s) \<and>
   (\<forall>k<length (windows s).
      windows (updateWindowSize i nwidth nheight s) ! k =
        (if id_w (windows s ! k) = i then (windows s ! k)\<lparr>width := nwidth, height := nheight\<rparr>
         else windows s ! k)) \<and>
   map zIndex (windows (updateWindowSize i nwidth nheight s)) = map zIndex (windows s) \<and>
   map isFocused (windows (updateWindowSize i nwidth nheight s)) = map isFocused (windows s) \<and>
   (i \<notin> set (map id_w (windows s)) \<longrightarrow> updateWindowSize i nwidth nheight s = s)"
  by (simp add: updateWindowPosition_def updateWindowSize_def map_no_match_id comp_def
      if_distrib [of zIndex] if_distrib [of isFocused] cong: if_cong)

theorem update_geometry_only_witness:
  "''c'' \<notin> set (map id_w (windows (run [OpenWindow specA, OpenWindow specB]))) \<and>
   updateWindowPosition ''c'' 7 (-3) (run [OpenWindow specA, OpenWindow specB]) =
     run [OpenWindow specA, OpenWindow specB] \<and>
   updateWindowSize ''c'' 800 600 (run [OpenWindow specA, OpenWindow specB]) =
     run [OpenWindow specA, OpenWindow specB] \<and>
   windows (updateWindowPosition ''a'' 7 (-3) (run [OpenWindow specA, OpenWindow specB])) =
     [(newWindow specA 101)\<lparr>x := 7, y := -3, isFocused := False\<rparr>, newWindow specB 102] \<and>
   windows (updateWindowSize ''a'' 800 600 (run [OpenWindow specA, OpenWindow specB])) =
     [(newWindow specA 101)\<lparr>width := 800, height := 600, isFocused := False\<rparr>, newWindow specB 102]"
  using update_geometry_only [of "''c''" 7 "-3" "run [OpenWindow specA, OpenWindow specB]" 800 600]
  by (simp add: run_AB updateWindowPosition_def updateWindowSize_def newWindow_def specA_id specB_id)

section \<open>Opening a window\<close>

lemma find_unique:
  "distinct (map id_w ws) \<Longrightarrow> w \<in> set ws \<Longrightarrow> id_w w = i \<Longrightarrow>
   find (\<lambda>v. id_w v = i) ws = Some w"
proof (induction ws)
  case Nil
  then show ?case by simp
next
  case (Cons a ws)
  show ?case
  proof (cases "a = w")
    case True
    with Cons.prems show ?thesis by simp
  next
    case False
    with Cons.prems have in_ws: "w \<in> set ws" by simp
    with Cons.prems have "id_w a \<noteq> i" by (auto simp: image_iff)
    with Cons in_ws show ?thesis by simp
  qed
qed

lemma find_present:
  "w \<in> set ws \<Longrightarrow> id_w w = i \<Longrightarrow> \<exists>e. find (\<lambda>v. id_w v = i) ws = Some e"
  by (cases "find (\<lambda>v. id_w v = i) ws") (auto simp: find_None_iff)

lemma unminimized_same:
  "\<not> isMinimized (w :: WindowState) \<Longrightarrow>
   w\<lparr>isMinimized := False, isFocused := True, zIndex := z\<rparr> = w\<lparr>isFocused := True, zIndex := z\<rparr>"
  by (cases w) simp

text \<open>
  C6. In every state that holds a window with the id of the argument that is not
  minimized, \<^verbatim>\<open>openWindow\<close> sets \<open>isFocused\<close> of that window to true and its \<open>zIndex\<close> to
  \<open>topZIndex + 1\<close>, sets \<open>isFocused\<close> to false on every window with another id, and
  changes nothing else: \<open>title\<close>, \<open>icon\<close>, \<open>x\<close>, \<open>y\<close>, \<open>width\<close>, \<open>height\<close> and
  \<open>isMaximized\<close> of the window stay as they were and are not taken from the argument.
\<close>

theorem openWindow_existing_refocus:
  assumes "w \<in> set (windows s)" and "id_w w = id_w window" and "\<not> isMinimized w"
  shows "topZIndex (openWindow window s) = topZIndex s + 1 \<and>
    length (windows (openWindow window s)) = length (windows s) \<and>
    (\<forall>k<length (windows s).
       (id_w (windows s ! k) \<noteq> id_w window \<longrightarrow>
          windows (openWindow window s) ! k = (windows s ! k)\<lparr>isFocused := False\<rparr>) \<and>
       (id_w (windows s ! k) = id_w window \<and> \<not> isMinimized (windows s ! k) \<longrightarrow>
          windows (openWindow window s) ! k =
            (windows s ! k)\<lparr>isFocused := True, zIndex := topZIndex s + 1\<rparr>))"
proof -
  from assms(1,2) obtain e where e: "find (\<lambda>v. id_w v = id_w window) (windows s) = Some e"
    using find_present by blast
  show ?thesis
  proof (cases "isMinimized e")
    case True
    with e show ?thesis
      by (simp add: openWindow_def Let_def unminimized_same)
  next
    case False
    with e show ?thesis
      by (simp add: openWindow_def Let_def)
  qed
qed

text \<open>
  C7. In every state (of pairwise different ids, as the data model has it and as every
  reachable state is, see \<open>run_uniqueIds\<close>) that holds a minimized window with the id of
  the argument, \<^verbatim>\<open>openWindow\<close> sets \<open>isMinimized\<close> of that window to false, \<open>isFocused\<close> to
  true and \<open>zIndex\<close> to \<open>topZIndex + 1\<close>, sets \<open>isFocused\<close> to false on every other
  window, and leaves \<open>title\<close>, \<open>icon\<close>, \<open>x\<close> and \<open>y\<close> (and every other field) alone.
\<close>

theorem openWindow_minimized_restores:
  assumes "uniqueIds (windows s)"
    and "w \<in> set (windows s)" and "id_w w = id_w window" and "isMinimized w"
  shows "topZIndex (openWindow window s) = topZIndex s + 1 \<and>
    length (windows (openWindow window s)) = length (windows s) \<and>
    (\<forall>k<length (windows s).
       (id_w (windows s ! k) \<noteq> id_w window \<longrightarrow>
          windows (openWindow window s) ! k = (windows s ! k)\<lparr>isFocused := False\<rparr>) \<and>
       (id_w (windows s ! k) = id_w window \<longrightarrow>
          windows (openWindow window s) ! k =
            (windows s ! k)\<lparr>isMinimized := False, isFocused := True, zIndex := topZIndex s + 1\<rparr>))"
proof -
  from assms(1) have "distinct (map id_w (windows s))" by (simp add: uniqueIds_def)
  from find_unique [OF this assms(2,3)]
  have e: "find (\<lambda>v. id_w v = id_w window) (windows s) = Some w" .
  with assms(4) show ?thesis
    by (simp add: openWindow_def Let_def)
qed

lemma filter_unfocus_none:
  "i \<notin> set (map id_w ws) \<Longrightarrow>
   filter (\<lambda>w. id_w w = i) (map (\<lambda>w. w\<lparr>isFocused := False\<rparr>) ws) = []"
  by (auto simp: filter_empty_conv)

lemma openWindow_fresh:
  assumes "i = id_w window" and "i \<notin> set (map id_w (windows t))"
  shows "filter (\<lambda>w. id_w w = i) (windows (openWindow window t)) =
    [newWindow window (topZIndex t + 1)]"
proof -
  from assms have "find (\<lambda>w. id_w w = id_w window) (windows t) = None"
    by (simp add: find_None_ids)
  with assms show ?thesis
    by (simp add: openWindow_def Let_def filter_unfocus_none) (simp add: newWindow_def)
qed

text \<open>
  C5. For every state \<open>s\<close> (holding a window with the id or not) and every state \<open>t\<close> with
  no window of that id, \<^verbatim>\<open>closeWindow\<close> followed by \<^verbatim>\<open>openWindow\<close> on \<open>s\<close> and
  \<^verbatim>\<open>openWindow\<close> alone on \<open>t\<close> each yield exactly one window with the id, and the two are
  equal up to \<open>zIndex\<close>: \<open>title\<close>, \<open>icon\<close>, \<open>x\<close>, \<open>y\<close>, \<open>width\<close>, \<open>height\<close>,
  \<open>isMinimized\<close> and \<open>isMaximized\<close> are those of the argument, nothing of a former window
  with the id remains, and the window is focused.
\<close>

theorem close_then_open_is_fresh:
  assumes "id_w window \<notin> set (map id_w (windows t))"
  shows "\<exists>w1 w2.
    filter (\<lambda>w. id_w w = id_w window)
      (windows (openWindow window (closeWindow (id_w window) s))) = [w1] \<and>
    filter (\<lambda>w. id_w w = id_w window) (windows (openWindow window t)) = [w2] \<and>
    w1\<lparr>zIndex := zIndex w2\<rparr> = w2 \<and>
    zIndex w1 = topZIndex s + 1 \<and> isFocused w1 \<and>
    title w1 = title window \<and> icon w1 = icon window \<and>
    x w1 = x window \<and> y w1 = y window \<and>
    width w1 = width window \<and> height w1 = height window \<and>
    isMinimized w1 = isMinimized window \<and> isMaximized w1 = isMaximized window"
proof -
  have "id_w window \<notin> set (map id_w (windows (closeWindow (id_w window) s)))"
    by (auto simp: closeWindow_def)
  from openWindow_fresh [OF refl this]
  have one: "filter (\<lambda>w. id_w w = id_w window)
      (windows (openWindow window (closeWindow (id_w window) s))) =
      [newWindow window (topZIndex s + 1)]"
    by (simp add: closeWindow_def)
  from openWindow_fresh [OF refl assms]
  have two: "filter (\<lambda>w. id_w w = id_w window) (windows (openWindow window t)) =
      [newWindow window (topZIndex t + 1)]" .
  show ?thesis
    unfolding one two by (simp add: newWindow_def)
qed

text \<open>Evaluation of the example runs.\<close>

lemmas example_defs =
  run_def initial_def openWindow_def closeWindow_def minimizeWindow_def maximizeWindow_def
  updateWindowPosition_def Let_def newWindow_def specA_def specB_def specA2_def

theorem openWindow_existing_refocus_witness:
  "(newWindow specA 101)\<lparr>isFocused := False\<rparr>
     \<in> set (windows (run [OpenWindow specA, OpenWindow specB])) \<and>
   id_w ((newWindow specA 101)\<lparr>isFocused := False\<rparr>) = id_w specA2 \<and>
   \<not> isMinimized ((newWindow specA 101)\<lparr>isFocused := False\<rparr>) \<and>
   topZIndex (openWindow specA2 (run [OpenWindow specA, OpenWindow specB])) = 103 \<and>
   windows (openWindow specA2 (run [OpenWindow specA, OpenWindow specB])) =
     [newWindow specA 103, (newWindow specB 102)\<lparr>isFocused := False\<rparr>] \<and>
   title specA2 \<noteq> title specA \<and> x specA2 \<noteq> x specA"
  using openWindow_existing_refocus
    [of "(newWindow specA 101)\<lparr>isFocused := False\<rparr>"
        "run [OpenWindow specA, OpenWindow specB]" specA2]
  by (simp add: example_defs)

theorem openWindow_minimized_restores_witness:
  "uniqueIds (windows (run [OpenWindow specA, OpenWindow specB, MinimizeWindow ''a''])) \<and>
   (newWindow specA 101)\<lparr>isMinimized := True, isFocused := False\<rparr>
     \<in> set (windows (run [OpenWindow specA, OpenWindow specB, MinimizeWindow ''a''])) \<and>
   id_w ((newWindow specA 101)\<lparr>isMinimized := True, isFocused := False\<rparr>) = id_w specA2 \<and>
   isMinimized ((newWindow specA 101)\<lparr>isMinimized := True, isFocused := False\<rparr>) \<and>
   topZIndex (openWindow specA2 (run [OpenWindow specA, OpenWindow specB, MinimizeWindow ''a''])) = 103 \<and>
   windows (openWindow specA2 (run [OpenWindow specA, OpenWindow specB, MinimizeWindow ''a''])) =
     [newWindow specA 103, (newWindow specB 102)\<lparr>isFocused := False\<rparr>] \<and>
   title specA2 \<noteq> title specA \<and> x specA2 \<noteq> x specA"
  using openWindow_minimized_restores
    [of "run [OpenWindow specA, OpenWindow specB, MinimizeWindow ''a'']"
        "(newWindow specA 101)\<lparr>isMinimized := True, isFocused := False\<rparr>" specA2]
  by (simp add: example_defs uniqueIds_def)

theorem close_then_open_is_fresh_witness:
  "id_w specA \<notin> set (map id_w (windows (run [OpenWindow specB]))) \<and>
   windows (run [OpenWindow specA, OpenWindow specB, UpdateWindowPosition ''a'' 7 (-3),
                 MinimizeWindow ''a'', MaximizeWindow ''a'']) =
     [(newWindow specA 101)\<lparr>x := 7, y := -3, isMinimized := True, isMaximized := True,
                              isFocused := False\<rparr>,
      newWindow specB 102] \<and>
   windows (openWindow specA (closeWindow (id_w specA)
      (run [OpenWindow specA, OpenWindow specB, UpdateWindowPosition ''a'' 7 (-3),
            MinimizeWindow ''a'', MaximizeWindow ''a'']))) =
     [(newWindow specB 102)\<lparr>isFocused := False\<rparr>, newWindow specA 103] \<and>
   windows (openWindow specA (run [OpenWindow specB])) =
     [(newWindow specB 101)\<lparr>isFocused := False\<rparr>, newWindow specA 102]"
  using close_then_open_is_fresh
    [of specA "run [OpenWindow specB]"
        "run [OpenWindow specA, OpenWindow specB, UpdateWindowPosition ''a'' 7 (-3),
              MinimizeWindow ''a'', MaximizeWindow ''a'']"]
  by (simp add: example_defs)

end
